theory Spec2Isabelle
  imports Complex_Main "HOL-Library.AList"
begin

section \<open>Radio.py: the audience generator of ReunionRadioAnalyzer\<close>

text \<open>
  Audience values are Python floats in the source. They are modelled as exact rationals:
  every constant of the source is a decimal fraction, and the arithmetic of the generator
  (one multiplication, a few additions, one rounding to a tenth) is taken without
  floating-point error. Years are Python ints, modelled as \<open>int\<close>. A Python \<open>dict\<close>
  keeps its keys in insertion order, so a dict is an association list that is changed
  with \<open>AList.update\<close>: an existing key keeps its place and gets the new value, a new
  key goes to the end.
\<close>

subsection \<open>Python built-ins used by the generator\<close>

text \<open>\<open>str(n)\<close> for an int: the decimal digits, with a minus sign for a negative number.\<close>

definition digit_char :: "nat \<Rightarrow> char" where
  "digit_char d = ''0123456789'' ! d"

function str_nat :: "nat \<Rightarrow> string" where
  "str_nat n = (if n < 10 then [digit_char n] else str_nat (n div 10) @ [digit_char (n mod 10)])"
  by pat_completeness auto
termination
  by (relation "measure (\<lambda>n. n)") auto

definition str :: "int \<Rightarrow> string" where
  "str i = (if i < 0 then CHR ''-'' # str_nat (nat (- i)) else str_nat (nat i))"

text \<open>
  \<open>int(s)\<close> for a string: an optional sign followed by at least one decimal digit gives
  the number; anything else is the \<open>ValueError\<close> branch, \<open>None\<close>. (Python also accepts
  surrounding white space and underscores between digits; no key written by the
  generator has either.)
\<close>

definition digit_val :: "char \<Rightarrow> nat option" where
  "digit_val c = (let n = of_char c in if 48 \<le> n \<and> n \<le> 57 then Some (n - 48) else None)"

fun parse_digits :: "nat \<Rightarrow> string \<Rightarrow> nat option" where
  "parse_digits acc [] = Some acc"
| "parse_digits acc (c # cs) =
     (case digit_val c of None \<Rightarrow> None | Some d \<Rightarrow> parse_digits (acc * 10 + d) cs)"

definition parse_nat :: "string \<Rightarrow> nat option" where
  "parse_nat s = (if s = [] then None else parse_digits 0 s)"

definition int_of_str :: "string \<Rightarrow> int option" where
  "int_of_str s =
     (case s of
        [] \<Rightarrow> None
      | c # cs \<Rightarrow>
          if c = CHR ''-'' then map_option (\<lambda>n. - int n) (parse_nat cs)
          else if c = CHR ''+'' then map_option int (parse_nat cs)
          else map_option int (parse_nat s))"

text \<open>
  \<open>round(x, 1)\<close>: the nearest multiple of one tenth, a tie going to the even multiple
  (Python 3 rounds half to even). \<open>rint\<close> is the rounding of \<open>10 * x\<close> to an integer.
\<close>

definition rint :: "rat \<Rightarrow> int" where
  "rint q = (let f = \<lfloor>q\<rfloor>; d = q - of_int f in
     if d < 1 / 2 then f else if 1 / 2 < d then f + 1 else if even f then f else f + 1)"

definition round1 :: "rat \<Rightarrow> rat" where
  "round1 x = of_int (rint (x * 10)) / 10"

subsection \<open>The random source\<close>

text \<open>
  The source draws from numpy's global generator. The draws are made an explicit
  parameter: a random source holds the sequence of standard normal samples and the
  sequence of unit samples (in \<open>[0, 1)\<close>) that the generator will hand out, and how many
  of each have been consumed. \<open>np.random.normal(loc, scale)\<close> is \<open>loc + scale * z\<close> for
  the next standard normal sample \<open>z\<close>; \<open>np.random.uniform(low, high)\<close> is
  \<open>low + (high - low) * u\<close> for the next unit sample \<open>u\<close>.
\<close>

record rng =
  gauss :: "nat \<Rightarrow> rat"
  unif :: "nat \<Rightarrow> rat"
  gpos :: nat
  upos :: nat

definition random_normal :: "rat \<Rightarrow> rat \<Rightarrow> rng \<Rightarrow> rat \<times> rng" where
  "random_normal loc scale r = (loc + scale * gauss r (gpos r), r\<lparr>gpos := Suc (gpos r)\<rparr>)"

definition random_uniform :: "rat \<Rightarrow> rat \<Rightarrow> rng \<Rightarrow> rat \<times> rng" where
  "random_uniform low high r =
     (low + (high - low) * unif r (upos r), r\<lparr>upos := Suc (upos r)\<rparr>)"

text \<open>The source that always hands out zero: no noise, every uniform draw at its lower end.\<close>

definition zero_rng :: rng where
  "zero_rng = \<lparr>gauss = (\<lambda>_. 0), unif = (\<lambda>_. 0), gpos = 0, upos = 0\<rparr>"

subsection \<open>The registries\<close>

record station =
  stype :: string
  lancement :: int
  couleur :: string

text \<open>
  Station names are Python strings; the two accented letters of the first name are
  written by their code points (\<open>0xE9\<close> for e acute, \<open>0xE8\<close> for e grave).
\<close>

definition reunion_1ere :: string where
  "reunion_1ere = ''R'' @ [CHR 0xE9] @ ''union 1'' @ [CHR 0xE8] @ ''re''"

definition nrj_reunion :: string where
  "nrj_reunion = ''NRJ R'' @ [CHR 0xE9] @ ''union''"

definition radios :: "(string \<times> station) list" where
  "radios =
    [(reunion_1ere, \<lparr>stype = ''Public'', lancement = 1960, couleur = ''#FF6B00''\<rparr>),
     (nrj_reunion, \<lparr>stype = ''Commercial'', lancement = 1990, couleur = ''#FF0000''\<rparr>),
     (''Freedom'', \<lparr>stype = ''Commercial'', lancement = 1982, couleur = ''#0000FF''\<rparr>),
     (''RCI'', \<lparr>stype = ''Commercial'', lancement = 1981, couleur = ''#800080''\<rparr>),
     (''Radio Est'', \<lparr>stype = ''Associative'', lancement = 1983, couleur = ''#008000''\<rparr>),
     (''Radio Kreol'', \<lparr>stype = ''Culturelle'', lancement = 1995, couleur = ''#FFD700''\<rparr>),
     (''Hit West'', \<lparr>stype = ''Commercial'', lancement = 2005, couleur = ''#FF1493''\<rparr>),
     (''Radio Sun'', \<lparr>stype = ''Commercial'', lancement = 1987, couleur = ''#FFA500''\<rparr>)]"

type_synonym params = "(string \<times> rat) list"

definition trends :: "(string \<times> params) list" where
  "trends =
    [(reunion_1ere, [(''2002'', 285 / 10), (''trend'', - 25 / 100), (''volatility'', 8 / 10)]),
     (nrj_reunion, [(''2002'', 168 / 10), (''trend'', 15 / 100), (''volatility'', 1)]),
     (''Freedom'', [(''2002'', 142 / 10), (''trend'', 10 / 100), (''volatility'', 9 / 10)]),
     (''RCI'', [(''2002'', 125 / 10), (''trend'', - 8 / 100), (''volatility'', 7 / 10)]),
     (''Radio Est'', [(''2002'', 83 / 10), (''trend'', 5 / 100), (''volatility'', 6 / 10)]),
     (''Radio Kreol'', [(''2002'', 67 / 10), (''trend'', 20 / 100), (''volatility'', 8 / 10)]),
     (''Hit West'', [(''2005'', 45 / 10), (''trend'', 35 / 100), (''volatility'', 12 / 10)]),
     (''Radio Sun'', [(''2002'', 52 / 10), (''trend'', 12 / 100), (''volatility'', 7 / 10)])]"

subsection \<open>\<open>_create_realistic_audience_data\<close>\<close>

text \<open>\<open>range(a, b)\<close>: the ints from \<open>a\<close> up to \<open>b - 1\<close>.\<close>

definition range_py :: "int \<Rightarrow> int \<Rightarrow> int list" where
  "range_py a b = [a..b - 1]"

text \<open>
  Lines 59 to 72 of the loop body: the linear trend, the Gaussian variation and the
  shock of the special years, before the value is rounded and clamped.
\<close>

definition raw_value :: "rat \<Rightarrow> rat \<Rightarrow> rat \<Rightarrow> int \<Rightarrow> int \<Rightarrow> rng \<Rightarrow> rat \<times> rng" where
  "raw_value base_value trend volatility start_year year r =
     (let years_passed = year - start_year;
          value = base_value + trend * of_int years_passed;
          (variation, r1) = random_normal 0 volatility r;
          value = value + variation
      in if year = 2008 then (let (u, r2) = random_uniform (- 2) (- 1) r1 in (value + u, r2))
         else if year = 2020 then (let (u, r2) = random_uniform 2 4 r1 in (value + u, r2))
         else if year = 2021 then (let (u, r2) = random_uniform (- 1) 1 r1 in (value + u, r2))
         else (value, r1))"

text \<open>Line 75: \<open>max(1.0, min(35.0, round(value, 1)))\<close>.\<close>

definition limits :: "rat \<Rightarrow> rat" where
  "limits value = max 1 (min 35 (round1 value))"

type_synonym year_map = "(string \<times> rat) list"

text \<open>One turn of the loop over the years: a year before the start year is skipped.\<close>

definition year_step ::
  "rat \<Rightarrow> rat \<Rightarrow> rat \<Rightarrow> int \<Rightarrow> int \<Rightarrow> year_map \<times> rng \<Rightarrow> year_map \<times> rng" where
  "year_step base_value trend volatility start_year year s =
     (case s of (d, r) \<Rightarrow>
        if year < start_year then (d, r)
        else (let (value, r') = raw_value base_value trend volatility start_year year r
              in (AList.update (str year) (limits value) d, r')))"

text \<open>The loop over the years (lines 54 to 76), started on the empty dict of the station.\<close>

definition years_loop :: "rat \<Rightarrow> rat \<Rightarrow> rat \<Rightarrow> int \<Rightarrow> rng \<Rightarrow> year_map \<times> rng" where
  "years_loop base_value trend volatility start_year r =
     fold (year_step base_value trend volatility start_year) (range_py 2002 2026) ([], r)"

type_synonym audience = "(string \<times> year_map) list"

text \<open>Lines 46 to 48: the start year of a station.\<close>

definition start_year_of :: "string \<Rightarrow> int" where
  "start_year_of radio = (if radio = ''Hit West'' then 2005 else 2002)"

text \<open>
  One turn of the loop over the stations. A parameter that is missing from the station's
  dict is the \<open>KeyError\<close> branch, \<open>None\<close>. The dict stored under the station's name is
  created empty, filled by the loop over the years and is the value of the entry; no
  other key is stored in between, so the entry is written here once, filled.
\<close>

definition station_step :: "string \<times> params \<Rightarrow> audience \<times> rng \<Rightarrow> (audience \<times> rng) option" where
  "station_step item s =
     (case (item, s) of ((radio, params), (audience_data, r)) \<Rightarrow>
        let start_year = start_year_of radio in
        case map_of params (str start_year) of None \<Rightarrow> None | Some base_value \<Rightarrow>
        case map_of params ''trend'' of None \<Rightarrow> None | Some trend \<Rightarrow>
        case map_of params ''volatility'' of None \<Rightarrow> None | Some volatility \<Rightarrow>
          let (d, r') = years_loop base_value trend volatility start_year r
          in Some (AList.update radio d audience_data, r'))"

text \<open>A \<open>for\<close> loop whose body can raise: the first failing turn ends it.\<close>

fun for_each :: "('a \<Rightarrow> 's \<Rightarrow> 's option) \<Rightarrow> 'a list \<Rightarrow> 's \<Rightarrow> 's option" where
  "for_each f [] s = Some s"
| "for_each f (x # xs) s = (case f x s of None \<Rightarrow> None | Some s' \<Rightarrow> for_each f xs s')"

definition create_realistic_audience_data :: "rng \<Rightarrow> (audience \<times> rng) option" where
  "create_realistic_audience_data r = for_each station_step trends ([], r)"

subsection \<open>The analyzer object and its accessors\<close>

record analyzer =
  radios_of :: "(string \<times> station) list"
  audience_data :: audience

text \<open>\<open>__init__\<close>: the registry, then the generated data; the random source is handed on.\<close>

definition init :: "rng \<Rightarrow> (analyzer \<times> rng) option" where
  "init r =
     (case create_realistic_audience_data r of
        None \<Rightarrow> None
      | Some (ad, r') \<Rightarrow> Some (\<lparr>radios_of = radios, audience_data = ad\<rparr>, r'))"

text \<open>\<open>get_radio_data\<close>: \<open>self.audience_data.get(radio_name, {})\<close>.\<close>

definition get_radio_data :: "analyzer \<Rightarrow> string \<Rightarrow> year_map" where
  "get_radio_data self radio_name =
     (case map_of (audience_data self) radio_name of None \<Rightarrow> [] | Some d \<Rightarrow> d)"

text \<open>
  A row of the table built by \<open>get_all_data\<close>. The columns \<open>Ann\'ee\<close> and
  \<open>Audience (%)\<close> are the fields \<open>Annee\<close> and \<open>Audience\<close>.
\<close>

record flat_record =
  Radio :: string
  Type :: string
  Annee :: int
  Audience :: rat
  Lancement :: int
  Couleur :: string

text \<open>
  Lines 90 to 97: one row is appended. A station that is missing from the registry is
  the \<open>KeyError\<close> branch and a year key that is not a number the \<open>ValueError\<close> branch,
  both \<open>None\<close>.
\<close>

definition append_row ::
  "(string \<times> station) list \<Rightarrow> string \<Rightarrow> string \<times> rat \<Rightarrow> flat_record list \<Rightarrow> flat_record list option" where
  "append_row reg radio item all_data =
     (case item of (year, audience) \<Rightarrow>
        case map_of reg radio of None \<Rightarrow> None | Some st \<Rightarrow>
        case int_of_str year of None \<Rightarrow> None | Some y \<Rightarrow>
          Some (all_data @ [\<lparr>Radio = radio, Type = stype st, Annee = y, Audience = audience,
                              Lancement = lancement st, Couleur = couleur st\<rparr>]))"

definition get_all_data :: "analyzer \<Rightarrow> flat_record list option" where
  "get_all_data self =
     for_each (\<lambda>(radio, data). for_each (append_row (radios_of self) radio) data)
       (audience_data self) []"

text \<open>\<open>main\<close>, up to the table: the analyzer is created and flattened.\<close>

definition main_table :: "rng \<Rightarrow> flat_record list option" where
  "main_table r = (case init r of None \<Rightarrow> None | Some (a, r') \<Rightarrow> get_all_data a)"

subsection \<open>Notions used to state the properties\<close>

text \<open>
  The years with a shock; a random source after \<open>g\<close> more normal and \<open>u\<close> more uniform
  draws; the shock of a year as a function of the unit sample it consumes; the number
  of uniform draws a station has made before it reaches year \<open>y\<close>; the stored value of
  a year in closed form; the year map of a station and the whole generated data in
  closed form.
\<close>

definition is_shock :: "int \<Rightarrow> bool" where
  "is_shock y = (y = 2008 \<or> y = 2020 \<or> y = 2021)"

definition advance :: "nat \<Rightarrow> nat \<Rightarrow> rng \<Rightarrow> rng" where
  "advance g u r = r\<lparr>gpos := gpos r + g, upos := upos r + u\<rparr>"

definition shock_of :: "int \<Rightarrow> rat \<Rightarrow> rat" where
  "shock_of y u = (if y = 2008 then - 2 + u else if y = 2020 then 2 + 2 * u
                   else if y = 2021 then - 1 + 2 * u else 0)"

definition shocks_before :: "int \<Rightarrow> int \<Rightarrow> nat" where
  "shocks_before s y = length (filter (\<lambda>x. s \<le> x \<and> is_shock x) [2002..y - 1])"

definition year_value :: "rat \<Rightarrow> rat \<Rightarrow> rat \<Rightarrow> int \<Rightarrow> rng \<Rightarrow> int \<Rightarrow> rat" where
  "year_value b t v s r y =
     limits (b + t * of_int (y - s) + v * gauss r (gpos r + nat (y - s))
             + shock_of y (unif r (upos r + shocks_before s y)))"

definition station_rows :: "rat \<Rightarrow> rat \<Rightarrow> rat \<Rightarrow> int \<Rightarrow> rng \<Rightarrow> year_map" where
  "station_rows b t v s r = map (\<lambda>y. (str y, year_value b t v s r y)) [s..2025]"

definition generated :: "rng \<Rightarrow> audience" where
  "generated r =
    [(reunion_1ere, station_rows (285 / 10) (- 25 / 100) (8 / 10) 2002 r),
     (nrj_reunion, station_rows (168 / 10) (15 / 100) 1 2002 (advance 24 3 r)),
     (''Freedom'', station_rows (142 / 10) (10 / 100) (9 / 10) 2002 (advance 48 6 r)),
     (''RCI'', station_rows (125 / 10) (- 8 / 100) (7 / 10) 2002 (advance 72 9 r)),
     (''Radio Est'', station_rows (83 / 10) (5 / 100) (6 / 10) 2002 (advance 96 12 r)),
     (''Radio Kreol'', station_rows (67 / 10) (20 / 100) (8 / 10) 2002 (advance 120 15 r)),
     (''Hit West'', station_rows (45 / 10) (35 / 100) (12 / 10) 2005 (advance 144 18 r)),
     (''Radio Sun'', station_rows (52 / 10) (12 / 100) (7 / 10) 2002 (advance 165 21 r))]"

fun draws_before :: "(string \<times> params) list \<Rightarrow> string \<Rightarrow> nat \<times> nat" where
  "draws_before [] radio = (0, 0)"
| "draws_before ((n, p) # ts) radio =
     (if n = radio then (0, 0)
      else (case draws_before ts radio of (g, u) \<Rightarrow>
              (nat (2026 - start_year_of n) + g, shocks_before (start_year_of n) 2026 + u)))"




definition mk_row :: "station \<Rightarrow> string \<Rightarrow> int \<Rightarrow> rat \<Rightarrow> flat_record" where
  "mk_row st radio y a =
     \<lparr>Radio = radio, Type = stype st, Annee = y, Audience = a,
      Lancement = lancement st, Couleur = couleur st\<rparr>"

definition table_of :: "(string \<times> station) list \<Rightarrow> audience \<Rightarrow> flat_record list" where
  "table_of reg ad =
     concat (map (\<lambda>(radio, data).
       map (\<lambda>(k, a). mk_row (the (map_of reg radio)) radio (the (int_of_str k)) a) data) ad)"

definition matches_registry :: "(string \<times> station) list \<Rightarrow> flat_record \<Rightarrow> bool" where
  "matches_registry reg row =
     (\<exists>st. map_of reg (Radio row) = Some st \<and> Type row = stype st
        \<and> Couleur row = couleur st \<and> Lancement row = lancement st)"

section \<open>The loop over the years\<close>

lemma update_fresh: "k \<notin> fst ` set ps \<Longrightarrow> AList.update k v ps = ps @ [(k, v)]"
  by (induction ps) auto

lemma update_set: "x \<in> set (AList.update k v ps) \<Longrightarrow> x = (k, v) \<or> x \<in> set ps"
  by (induction ps) (auto split: if_splits)

lemma raw_value_fst:
  "fst (raw_value b t v s y r) =
     b + t * of_int (y - s) + v * gauss r (gpos r) + shock_of y (unif r (upos r))"
  by (simp add: raw_value_def random_normal_def random_uniform_def shock_of_def Let_def)

lemma raw_value_snd:
  "snd (raw_value b t v s y r) = advance 1 (if is_shock y then 1 else 0) r"
  by (simp add: raw_value_def random_normal_def random_uniform_def is_shock_def advance_def Let_def)

lemma advance_advance: "advance g u (advance g' u' r) = advance (g' + g) (u' + u) r"
  by (simp add: advance_def add.assoc)

lemma advance_sel [simp]:
  "gauss (advance g u r) = gauss r" "unif (advance g u r) = unif r"
  "gpos (advance g u r) = gpos r + g" "upos (advance g u r) = upos r + u"
  by (simp_all add: advance_def)

lemma advance_0 [simp]: "advance 0 0 r = r"
  by (simp add: advance_def)

lemma year_step_skip: "y < s \<Longrightarrow> year_step b t v s y (d, r) = (d, r)"
  by (simp add: year_step_def)

lemma year_step_keep:
  "\<not> y < s \<Longrightarrow> year_step b t v s y (d, r) =
     (AList.update (str y) (limits (fst (raw_value b t v s y r))) d,
      advance 1 (if is_shock y then 1 else 0) r)"
  by (simp add: year_step_def split_beta raw_value_snd Let_def)

lemma fold_years_keys:
  "distinct (map str ys) \<Longrightarrow> str ` set ys \<inter> fst ` set d = {} \<Longrightarrow>
   map fst (fst (fold (year_step b t v s) ys (d, r))) =
     map fst d @ map str (filter (\<lambda>y. s \<le> y) ys)"
proof (induction ys arbitrary: d r)
  case Nil
  then show ?case by simp
next
  case (Cons y ys)
  show ?case
  proof (cases "y < s")
    case True
    with Cons show ?thesis by (simp add: year_step_skip)
  next
    case False
    have fresh: "str y \<notin> fst ` set d" using Cons.prems(2) by auto
    let ?d = "d @ [(str y, limits (fst (raw_value b t v s y r)))]"
    have disj: "str ` set ys \<inter> fst ` set ?d = {}"
      using Cons.prems by auto
    have dist: "distinct (map str ys)" using Cons.prems(1) by simp
    show ?thesis
      using False Cons.IH [OF dist disj]
      by (simp add: year_step_keep update_fresh [OF fresh])
  qed
qed

lemma fold_years_rng:
  "snd (fold (year_step b t v s) ys (d, r)) =
     advance (length (filter (\<lambda>y. s \<le> y) ys))
             (length (filter (\<lambda>y. s \<le> y \<and> is_shock y) ys)) r"
proof (induction ys arbitrary: d r)
  case Nil
  then show ?case by simp
next
  case (Cons y ys)
  then show ?case
    by (cases "y < s") (simp_all add: year_step_skip year_step_keep advance_advance)
qed

lemma fold_years_lookup_other:
  "k \<notin> str ` set ys \<Longrightarrow> map_of (fst (fold (year_step b t v s) ys (d, r))) k = map_of d k"
proof (induction ys arbitrary: d r)
  case Nil
  then show ?case by simp
next
  case (Cons y ys)
  then show ?case
    by (cases "y < s") (auto simp add: year_step_skip year_step_keep update_conv')
qed

lemma fold_years_values:
  "\<forall>x \<in> snd ` set d. P x \<Longrightarrow> (\<And>x. P (limits x)) \<Longrightarrow>
   \<forall>x \<in> snd ` set (fst (fold (year_step b t v s) ys (d, r))). P x"
proof (induction ys arbitrary: d r)
  case Nil
  then show ?case by simp
next
  case (Cons y ys)
  show ?case
  proof (cases "y < s")
    case True
    with Cons show ?thesis by (simp add: year_step_skip)
  next
    case False
    let ?d = "AList.update (str y) (limits (fst (raw_value b t v s y r))) d"
    have "\<forall>x \<in> snd ` set ?d. P x"
      using Cons.prems by (auto dest!: update_set)
    from Cons.IH [OF this Cons.prems(2)] False show ?thesis
      by (simp add: year_step_keep)
  qed
qed

lemma fold_years_lookup:
  assumes "distinct (map str (pre @ y # post))" and "s \<le> y"
  shows "map_of (fst (fold (year_step b t v s) (pre @ y # post) (d, r))) (str y) =
     Some (limits (fst (raw_value b t v s y
        (advance (length (filter (\<lambda>y. s \<le> y) pre))
                 (length (filter (\<lambda>y. s \<le> y \<and> is_shock y) pre)) r))))"
proof -
  obtain d' where pre: "fold (year_step b t v s) pre (d, r) =
      (d', advance (length (filter (\<lambda>y. s \<le> y) pre))
                 (length (filter (\<lambda>y. s \<le> y \<and> is_shock y) pre)) r)"
    using fold_years_rng [of b t v s pre d r] by (cases "fold (year_step b t v s) pre (d, r)") simp
  have notin: "str y \<notin> str ` set post" using assms(1) by auto
  show ?thesis
    using assms(2) by (simp add: pre year_step_keep fold_years_lookup_other [OF notin] update_conv')
qed

lemma range_eq: "range_py 2002 2026 = [2002..2025]"
  by (simp add: range_py_def)

lemma years_distinct: "distinct (map str [2002..2025])"
  by (simp add: upto_rec_numeral str_def digit_char_def)

lemma filter_ge_upto: "a \<le> s \<Longrightarrow> filter (\<lambda>y. s \<le> y) [a..b] = [s..b]"
proof (cases "s \<le> b")
  case True
  assume "a \<le> s"
  with True have "[a..b] = [a..s - 1] @ [s..b]" by (simp add: upto_split1)
  then show ?thesis by (auto simp add: filter_empty_conv)
next
  case False
  then show ?thesis by (auto simp add: filter_empty_conv)
qed

lemma years_loop_keys:
  assumes "2002 \<le> s"
  shows "map fst (fst (years_loop b t v s r)) = map str [s..2025]"
proof -
  have "str ` set [2002..2025] \<inter> fst ` set ([] :: year_map) = {}" by simp
  from fold_years_keys [OF years_distinct this, of b t v s r]
  show ?thesis
    by (simp only: years_loop_def range_eq filter_ge_upto [OF assms] list.map append_Nil)
qed

lemma years_loop_values:
  "(\<And>x. P (limits x)) \<Longrightarrow> \<forall>x \<in> snd ` set (fst (years_loop b t v s r)). P x"
  unfolding years_loop_def by (rule fold_years_values) simp_all

lemma shocks_all: "length (filter is_shock [2002..2025]) = 3"
  by (simp add: upto_rec_numeral is_shock_def)

lemma years_loop_rng:
  assumes "2002 \<le> s" "s \<le> 2008"
  shows "snd (years_loop b t v s r) = advance (nat (2026 - s)) 3 r"
proof -
  have "filter (\<lambda>y. s \<le> y \<and> is_shock y) [2002..2025] = filter is_shock [2002..2025]"
    using assms(2) by (intro filter_cong refl) (auto simp add: is_shock_def)
  then have u: "length (filter (\<lambda>y. s \<le> y \<and> is_shock y) [2002..2025]) = 3"
    by (simp only: shocks_all)
  have "length (filter (\<lambda>y. s \<le> y) [2002..2025]) = nat (2025 - s + 1)"
    by (simp only: filter_ge_upto [OF assms(1)] length_upto)
  also have "\<dots> = nat (2026 - s)" by simp
  finally have g: "length (filter (\<lambda>y. s \<le> y) [2002..2025]) = nat (2026 - s)" .
  show ?thesis
    by (simp only: years_loop_def range_eq fold_years_rng g u)
qed

lemma years_loop_lookup:
  assumes "2002 \<le> s" "s \<le> y" "y \<le> 2025"
  shows "map_of (fst (years_loop b t v s r)) (str y) =
     Some (limits (fst (raw_value b t v s y (advance (nat (y - s)) (shocks_before s y) r))))"
proof -
  have "(2002::int) \<le> y" using assms by simp
  from upto_split3 [OF this assms(3)]
  have split: "[2002..2025] = [2002..y - 1] @ y # [y + 1..2025]" .
  have dist: "distinct (map str ([2002..y - 1] @ y # [y + 1..2025]))"
    using years_distinct by (simp only: split)
  have "length (filter (\<lambda>x. s \<le> x) [2002..y - 1]) = nat (y - 1 - s + 1)"
    by (simp only: filter_ge_upto [OF assms(1)] length_upto)
  also have "\<dots> = nat (y - s)" by simp
  finally have len: "length (filter (\<lambda>x. s \<le> x) [2002..y - 1]) = nat (y - s)" .
  have "map_of (fst (fold (year_step b t v s) [2002..2025] ([], r))) (str y) =
     Some (limits (fst (raw_value b t v s y (advance (nat (y - s)) (shocks_before s y) r))))"
    using fold_years_lookup [OF dist assms(2), of b t v "[]" r]
    by (simp only: split [symmetric] len shocks_before_def)
  then show ?thesis
    by (simp only: years_loop_def range_eq)
qed

lemma alist_by_lookup:
  "map fst d = map g ys \<Longrightarrow> distinct (map g ys) \<Longrightarrow>
   (\<And>y. y \<in> set ys \<Longrightarrow> map_of d (g y) = Some (f y)) \<Longrightarrow>
   d = map (\<lambda>y. (g y, f y)) ys"
proof (induction ys arbitrary: d)
  case Nil
  then show ?case by simp
next
  case (Cons y ys)
  from Cons.prems(1) obtain w d' where d: "d = (g y, w) # d'" and keys: "map fst d' = map g ys"
    by (cases d) auto
  have "map_of d (g y) = Some (f y)" using Cons.prems(3) by simp
  then have w: "w = f y" by (simp add: d)
  have "d' = map (\<lambda>y. (g y, f y)) ys"
  proof (rule Cons.IH [OF keys])
    show "distinct (map g ys)" using Cons.prems(2) by simp
  next
    fix z assume z: "z \<in> set ys"
    then have "g z \<noteq> g y" using Cons.prems(2) by (auto simp add: image_iff)
    moreover have "map_of d (g z) = Some (f z)" using Cons.prems(3) z by simp
    ultimately show "map_of d' (g z) = Some (f z)" by (simp add: d)
  qed
  then show ?case by (simp add: d w)
qed

lemma distinct_years_from:
  assumes "2002 \<le> s" shows "distinct (map str [s..2025])"
proof -
  have "distinct (map str (filter (\<lambda>y. s \<le> y) [2002..2025]))"
    using years_distinct by (rule distinct_map_filter)
  then show ?thesis by (simp only: filter_ge_upto [OF assms])
qed

lemma years_loop_explicit:
  assumes "2002 \<le> s"
  shows "fst (years_loop b t v s r) = map (\<lambda>y. (str y, year_value b t v s r y)) [s..2025]"
proof (rule alist_by_lookup)
  show "map fst (fst (years_loop b t v s r)) = map str [s..2025]"
    by (rule years_loop_keys [OF assms])
  show "distinct (map str [s..2025])" by (rule distinct_years_from [OF assms])
  fix y assume "y \<in> set [s..2025]"
  then have "s \<le> y" "y \<le> 2025" by simp_all
  from years_loop_lookup [OF assms this]
  show "map_of (fst (years_loop b t v s r)) (str y) = Some (year_value b t v s r y)"
    by (simp add: raw_value_fst year_value_def)
qed

lemma start_year_of_range: "2002 \<le> start_year_of radio \<and> start_year_of radio \<le> 2008"
  by (simp add: start_year_of_def)

lemma station_step_eq:
  assumes "map_of params (str (start_year_of radio)) = Some b"
    and "map_of params ''trend'' = Some t"
    and "map_of params ''volatility'' = Some v"
  shows "station_step (radio, params) (ad, r) =
     Some (AList.update radio
             (map (\<lambda>y. (str y, year_value b t v (start_year_of radio) r y))
                [start_year_of radio..2025]) ad,
           advance (nat (2026 - start_year_of radio)) 3 r)"
proof -
  have rng: "snd (years_loop b t v (start_year_of radio) r) =
      advance (nat (2026 - start_year_of radio)) 3 r"
    using start_year_of_range by (simp add: years_loop_rng)
  have dat: "fst (years_loop b t v (start_year_of radio) r) =
      map (\<lambda>y. (str y, year_value b t v (start_year_of radio) r y)) [start_year_of radio..2025]"
    using start_year_of_range by (simp add: years_loop_explicit)
  show ?thesis
    by (simp add: station_step_def assms split_beta Let_def rng dat)
qed

lemma station_step_rows:
  assumes "start_year_of radio = s"
    and "map_of params (str s) = Some b"
    and "map_of params ''trend'' = Some t"
    and "map_of params ''volatility'' = Some v"
    and "nat (2026 - s) = n"
  shows "station_step (radio, params) (ad, r) =
     Some (AList.update radio (station_rows b t v s r) ad, advance n 3 r)"
  using station_step_eq [of params radio b t v ad r] assms
  by (simp only: station_rows_def)

lemma str_2002: "str 2002 = ''2002''"
  by (simp add: str_def digit_char_def)

lemma str_2005: "str 2005 = ''2005''"
  by (simp add: str_def digit_char_def)

lemma create_explicit:
  "create_realistic_audience_data r = Some (generated r, advance 189 24 r)"
proof -
  note names = reunion_1ere_def nrj_reunion_def start_year_of_def
  note ev = str_2002 str_2005 names
  have s1: "station_step (reunion_1ere, [(''2002'', 285 / 10), (''trend'', - 25 / 100), (''volatility'', 8 / 10)]) (ad, r0) =
      Some (AList.update reunion_1ere (station_rows (285 / 10) (- 25 / 100) (8 / 10) 2002 r0) ad, advance 24 3 r0)" for ad r0
    by (rule station_step_rows) (simp_all add: ev)
  have s2: "station_step (nrj_reunion, [(''2002'', 168 / 10), (''trend'', 15 / 100), (''volatility'', 1)]) (ad, r0) =
      Some (AList.update nrj_reunion (station_rows (168 / 10) (15 / 100) 1 2002 r0) ad, advance 24 3 r0)" for ad r0
    by (rule station_step_rows) (simp_all add: ev)
  have s3: "station_step (''Freedom'', [(''2002'', 142 / 10), (''trend'', 10 / 100), (''volatility'', 9 / 10)]) (ad, r0) =
      Some (AList.update ''Freedom'' (station_rows (142 / 10) (10 / 100) (9 / 10) 2002 r0) ad, advance 24 3 r0)" for ad r0
    by (rule station_step_rows) (simp_all add: ev)
  have s4: "station_step (''RCI'', [(''2002'', 125 / 10), (''trend'', - 8 / 100), (''volatility'', 7 / 10)]) (ad, r0) =
      Some (AList.update ''RCI'' (station_rows (125 / 10) (- 8 / 100) (7 / 10) 2002 r0) ad, advance 24 3 r0)" for ad r0
    by (rule station_step_rows) (simp_all add: ev)
  have s5: "station_step (''Radio Est'', [(''2002'', 83 / 10), (''trend'', 5 / 100), (''volatility'', 6 / 10)]) (ad, r0) =
      Some (AList.update ''Radio Est'' (station_rows (83 / 10) (5 / 100) (6 / 10) 2002 r0) ad, advance 24 3 r0)" for ad r0
    by (rule station_step_rows) (simp_all add: ev)
  have s6: "station_step (''Radio Kreol'', [(''2002'', 67 / 10), (''trend'', 20 / 100), (''volatility'', 8 / 10)]) (ad, r0) =
      Some (AList.update ''Radio Kreol'' (station_rows (67 / 10) (20 / 100) (8 / 10) 2002 r0) ad, advance 24 3 r0)" for ad r0
    by (rule station_step_rows) (simp_all add: ev)
  have s7: "station_step (''Hit West'', [(''2005'', 45 / 10), (''trend'', 35 / 100), (''volatility'', 12 / 10)]) (ad, r0) =
      Some (AList.update ''Hit West'' (station_rows (45 / 10) (35 / 100) (12 / 10) 2005 r0) ad, advance 21 3 r0)" for ad r0
    by (rule station_step_rows) (simp_all add: ev)
  have s8: "station_step (''Radio Sun'', [(''2002'', 52 / 10), (''trend'', 12 / 100), (''volatility'', 7 / 10)]) (ad, r0) =
      Some (AList.update ''Radio Sun'' (station_rows (52 / 10) (12 / 100) (7 / 10) 2002 r0) ad, advance 24 3 r0)" for ad r0
    by (rule station_step_rows) (simp_all add: ev)
  show ?thesis
    unfolding create_realistic_audience_data_def trends_def generated_def
    by (simp only: for_each.simps s1 s2 s3 s4 s5 s6 s7 s8 option.case advance_advance)
       (simp add: names)
qed

section \<open>The loop over the stations\<close>

lemma shocks_2002: "shocks_before 2002 2026 = 3"
  by (simp add: shocks_before_def is_shock_def)

lemma shocks_2005: "shocks_before 2005 2026 = 3"
  by (simp add: shocks_before_def is_shock_def)

lemma generated_all:
  "\<forall>(radio, params) \<in> set trends.
      str (start_year_of radio) \<in> fst ` set params
      \<and> ''trend'' \<in> fst ` set params \<and> ''volatility'' \<in> fst ` set params
      \<and> map_of (generated r) radio =
          Some (station_rows (the (map_of params (str (start_year_of radio))))
                 (the (map_of params ''trend'')) (the (map_of params ''volatility''))
                 (start_year_of radio)
                 (advance (fst (draws_before trends radio)) (snd (draws_before trends radio)) r))"
  by (simp add: generated_def trends_def reunion_1ere_def nrj_reunion_def start_year_of_def
    str_2002 str_2005 shocks_2002 shocks_2005)

lemma generated_lookup:
  assumes "(radio, params) \<in> set trends"
    and "map_of params (str (start_year_of radio)) = Some b"
    and "map_of params ''trend'' = Some t"
    and "map_of params ''volatility'' = Some v"
  shows "map_of (generated r) radio =
          Some (station_rows b t v (start_year_of radio)
                 (advance (fst (draws_before trends radio)) (snd (draws_before trends radio)) r))"
  using generated_all [of r] assms by fastforce

lemma params_present:
  assumes "(radio, params) \<in> set trends"
  shows "\<exists>b t v. map_of params (str (start_year_of radio)) = Some b
     \<and> map_of params ''trend'' = Some t \<and> map_of params ''volatility'' = Some v"
proof -
  from generated_all [of undefined] assms
  have "str (start_year_of radio) \<in> fst ` set params" "''trend'' \<in> fst ` set params"
    "''volatility'' \<in> fst ` set params" by fastforce+
  then have "map_of params (str (start_year_of radio)) \<noteq> None"
    "map_of params ''trend'' \<noteq> None" "map_of params ''volatility'' \<noteq> None"
    by (simp_all only: map_of_eq_None_iff not_not)
  then show ?thesis by blast
qed

lemma map_of_keyed:
  "distinct (map g ys) \<Longrightarrow> y \<in> set ys \<Longrightarrow> map_of (map (\<lambda>y. (g y, f y)) ys) (g y) = Some (f y)"
  by (induction ys) (auto simp add: image_iff)

lemma station_rows_lookup:
  assumes "2002 \<le> s" "s \<le> y" "y \<le> 2025"
  shows "map_of (station_rows b t v s r) (str y) = Some (year_value b t v s r y)"
  unfolding station_rows_def
  using distinct_years_from [OF assms(1)] assms(2,3) by (intro map_of_keyed) simp_all

lemma limits_range: "1 \<le> limits x \<and> limits x \<le> 35"
  by (simp add: limits_def)

lemma limits_tenth: "\<exists>n::int. limits x = of_int n / 10"
proof -
  have "limits x = 1 \<or> limits x = 35 \<or> limits x = round1 x"
    by (auto simp add: limits_def max_def min_def)
  moreover have "(1::rat) = of_int 10 / 10" "(35::rat) = of_int 350 / 10" by simp_all
  ultimately show ?thesis unfolding round1_def by metis
qed

section \<open>Properties of the generator\<close>

lemma generated_value:
  assumes "(radio, params) \<in> set trends"
    and "start_year_of radio \<le> year" and "year \<le> 2025"
    and "map_of params (str (start_year_of radio)) = Some b"
    and "map_of params ''trend'' = Some t"
    and "map_of params ''volatility'' = Some v"
  shows "\<exists>d. map_of (generated r) radio = Some d \<and>
     map_of d (str year) =
       Some (year_value b t v (start_year_of radio)
          (advance (fst (draws_before trends radio)) (snd (draws_before trends radio)) r) year)"
proof -
  have "2002 \<le> start_year_of radio" using start_year_of_range by simp
  from station_rows_lookup [OF this assms(2,3)] generated_lookup [OF assms(1,4,5,6)]
  show ?thesis by simp
qed

text \<open>
  C1. For every station of the registry and every year from its start year to 2025, the
  generator returns a value under that year's key, and the value lies between 1 and 35
  and is a whole number of tenths.
\<close>

theorem audience_value_in_bounds:
  assumes "(radio, params) \<in> set trends"
    and "start_year_of radio \<le> year" and "year \<le> 2025"
  shows "\<exists>ad r' d value. create_realistic_audience_data r = Some (ad, r')
     \<and> map_of ad radio = Some d \<and> map_of d (str year) = Some value
     \<and> 1 \<le> value \<and> value \<le> 35 \<and> (\<exists>n::int. value = of_int n / 10)"
proof -
  from params_present [OF assms(1)] obtain b t v where
    p: "map_of params (str (start_year_of radio)) = Some b" "map_of params ''trend'' = Some t"
      "map_of params ''volatility'' = Some v" by blast
  from generated_value [OF assms p] obtain d where
    d: "map_of (generated r) radio = Some d"
      "map_of d (str year) = Some (year_value b t v (start_year_of radio)
          (advance (fst (draws_before trends radio)) (snd (draws_before trends radio)) r) year)"
    by blast
  show ?thesis
    using create_explicit [of r] d limits_range limits_tenth
    unfolding year_value_def by blast
qed

theorem audience_value_in_bounds_witness:
  "(''Hit West'', [(''2005'', 45 / 10), (''trend'', 35 / 100), (''volatility'', 12 / 10)]) \<in> set trends
   \<and> start_year_of ''Hit West'' \<le> 2005 \<and> (2005::int) \<le> 2025
   \<and> (\<exists>ad r' d value. create_realistic_audience_data zero_rng = Some (ad, r')
     \<and> map_of ad ''Hit West'' = Some d \<and> map_of d (str 2005) = Some value
     \<and> 1 \<le> value \<and> value \<le> 35 \<and> (\<exists>n::int. value = of_int n / 10))"
proof -
  have a: "(''Hit West'', [(''2005'', 45 / 10), (''trend'', 35 / 100), (''volatility'', 12 / 10)]) \<in> set trends"
    by (simp add: trends_def)
  have b: "start_year_of ''Hit West'' \<le> 2005" by (simp add: start_year_of_def)
  have c: "(2005::int) \<le> 2025" by simp
  from audience_value_in_bounds [OF a b c, of zero_rng] a b c show ?thesis by blast
qed

lemma int_of_str_years: "list_all (\<lambda>y. int_of_str (str y) = Some y) [2002..2025]"
  by (simp add: upto_rec_numeral str_def digit_char_def int_of_str_def parse_nat_def digit_val_def)

lemma int_of_str_year:
  assumes "2002 \<le> y" "y \<le> 2025" shows "int_of_str (str y) = Some y"
proof -
  have "y \<in> set [2002..2025]" using assms by (simp only: set_upto atLeastAtMost_iff simp_thms)
  with int_of_str_years show ?thesis unfolding list_all_iff by blast
qed

lemma station_rows_keys: "map fst (station_rows b t v s r) = map str [s..2025]"
  by (simp add: station_rows_def comp_def)

lemma generated_names: "map fst (generated r) = map fst trends"
  by (simp add: generated_def trends_def)

lemma late_starters: "filter (\<lambda>radio. start_year_of radio \<noteq> 2002) (map fst trends) = [''Hit West'']"
  by (simp add: trends_def start_year_of_def reunion_1ere_def nrj_reunion_def)

text \<open>
  C2. The generator returns one year map per station of the registry, in the registry's
  order. The keys of a station's map are the decimal strings of the years from its start
  year to 2025, each once and in increasing order; read back as numbers they are exactly
  these years. The start year is 2002 for every station but Hit West, where it is 2005.
\<close>

theorem covered_years_contiguous:
  assumes "(radio, params) \<in> set trends"
  shows "\<exists>ad r' d. create_realistic_audience_data r = Some (ad, r')
     \<and> map fst ad = map fst trends
     \<and> map_of ad radio = Some d
     \<and> map fst d = map str [start_year_of radio..2025]
     \<and> distinct (map fst d)
     \<and> map int_of_str (map fst d) = map Some [start_year_of radio..2025]
     \<and> filter (\<lambda>radio. start_year_of radio \<noteq> 2002) (map fst trends) = [''Hit West'']
     \<and> start_year_of ''Hit West'' = 2005"
proof -
  from params_present [OF assms] obtain b t v where
    p: "map_of params (str (start_year_of radio)) = Some b" "map_of params ''trend'' = Some t"
      "map_of params ''volatility'' = Some v" by blast
  let ?s = "start_year_of radio"
  let ?d = "station_rows b t v ?s
      (advance (fst (draws_before trends radio)) (snd (draws_before trends radio)) r)"
  have s: "2002 \<le> ?s" using start_year_of_range by simp
  have ks: "map fst ?d = map str [?s..2025]" by (rule station_rows_keys)
  have dist: "distinct (map fst ?d)"
    unfolding ks by (rule distinct_years_from [OF s])
  have parsed: "map int_of_str (map fst ?d) = map Some [?s..2025]"
    unfolding ks using s by (simp add: int_of_str_year)
  have start: "start_year_of ''Hit West'' = 2005" by (simp add: start_year_of_def)
  show ?thesis
    using create_explicit [of r] generated_names [of r] generated_lookup [OF assms p, of r]
      ks dist parsed late_starters start
    by blast
qed

theorem covered_years_contiguous_witness:
  "(''Hit West'', [(''2005'', 45 / 10), (''trend'', 35 / 100), (''volatility'', 12 / 10)]) \<in> set trends
   \<and> (\<exists>ad r' d. create_realistic_audience_data zero_rng = Some (ad, r')
     \<and> map fst ad = map fst trends
     \<and> map_of ad ''Hit West'' = Some d
     \<and> map fst d = map str [start_year_of ''Hit West''..2025]
     \<and> distinct (map fst d)
     \<and> map int_of_str (map fst d) = map Some [start_year_of ''Hit West''..2025]
     \<and> filter (\<lambda>radio. start_year_of radio \<noteq> 2002) (map fst trends) = [''Hit West'']
     \<and> start_year_of ''Hit West'' = 2005)"
proof -
  have a: "(''Hit West'', [(''2005'', 45 / 10), (''trend'', 35 / 100), (''volatility'', 12 / 10)]) \<in> set trends"
    by (simp add: trends_def)
  from covered_years_contiguous [OF a, of zero_rng] a show ?thesis by blast
qed

lemma limits_2850: "limits (285 / 10) = 285 / 10" by code_simp

lemma limits_2825: "limits (2825 / 100) = 282 / 10" by code_simp

lemma limits_2650: "limits (265 / 10) = 265 / 10" by code_simp

lemma shocks_before_2002: "shocks_before 2002 2002 = 0"
  by (simp add: shocks_before_def)

lemma shocks_before_2003: "shocks_before 2002 2003 = 0"
  by (simp add: shocks_before_def is_shock_def)

lemma loop_value:
  assumes "2002 \<le> s" "s \<le> y" "y \<le> 2025"
  shows "map_of (fst (years_loop b t v s r)) (str y) = Some (year_value b t v s r y)"
  using station_rows_lookup [OF assms] years_loop_explicit [OF assms(1)]
  by (simp only: station_rows_def)

text \<open>
  C3, as stated, fails: without noise the value of 2003 is 28.25 before rounding, a tie
  between 28.2 and 28.3, and \<open>round\<close> takes the even neighbour 28.2.
\<close>

theorem value_2003_not_283:
  "map_of (fst (years_loop (285 / 10) (- 25 / 100) (8 / 10) 2002 zero_rng)) (str 2003)
     \<noteq> Some (283 / 10)"
proof -
  have "year_value (285 / 10) (- 25 / 100) (8 / 10) 2002 zero_rng 2003 = limits (2825 / 100)"
    by (simp add: year_value_def zero_rng_def shock_of_def)
  then have v: "year_value (285 / 10) (- 25 / 100) (8 / 10) 2002 zero_rng 2003 = 282 / 10"
    by (simp only: limits_2825)
  have "map_of (fst (years_loop (285 / 10) (- 25 / 100) (8 / 10) 2002 zero_rng)) (str 2003)
      = Some (year_value (285 / 10) (- 25 / 100) (8 / 10) 2002 zero_rng 2003)"
    by (rule loop_value) simp_all
  then have "map_of (fst (years_loop (285 / 10) (- 25 / 100) (8 / 10) 2002 zero_rng)) (str 2003)
      = Some (282 / 10)"
    by (simp only: v)
  then show ?thesis by simp
qed

text \<open>
  C3, amended. When every normal sample of the random source is zero, the loop over the
  years for baseline 28.5, slope -0.25 and start year 2002 (with any volatility) stores
  28.5 for 2002, 28.2 for 2003 and 26.5 for 2010; none of these years has a shock, and
  each value lies between 1 and 35.
\<close>

theorem noiseless_scenario:
  assumes "\<forall>k. gauss r k = 0"
  shows "map_of (fst (years_loop (285 / 10) (- 25 / 100) v 2002 r)) (str 2002) = Some (285 / 10)
     \<and> map_of (fst (years_loop (285 / 10) (- 25 / 100) v 2002 r)) (str 2003) = Some (282 / 10)
     \<and> map_of (fst (years_loop (285 / 10) (- 25 / 100) v 2002 r)) (str 2010) = Some (265 / 10)
     \<and> (1::rat) \<le> 265 / 10 \<and> (285 / 10 :: rat) \<le> 35"
proof -
  have v2: "year_value (285 / 10) (- 25 / 100) v 2002 r 2002 = limits (285 / 10)"
    using assms by (simp add: year_value_def shock_of_def)
  have v3: "year_value (285 / 10) (- 25 / 100) v 2002 r 2003 = limits (2825 / 100)"
    using assms by (simp add: year_value_def shock_of_def)
  have v10: "year_value (285 / 10) (- 25 / 100) v 2002 r 2010 = limits (265 / 10)"
    using assms by (simp add: year_value_def shock_of_def)
  have l2: "map_of (fst (years_loop (285 / 10) (- 25 / 100) v 2002 r)) (str 2002)
      = Some (year_value (285 / 10) (- 25 / 100) v 2002 r 2002)"
    by (rule loop_value) simp_all
  have l3: "map_of (fst (years_loop (285 / 10) (- 25 / 100) v 2002 r)) (str 2003)
      = Some (year_value (285 / 10) (- 25 / 100) v 2002 r 2003)"
    by (rule loop_value) simp_all
  have l10: "map_of (fst (years_loop (285 / 10) (- 25 / 100) v 2002 r)) (str 2010)
      = Some (year_value (285 / 10) (- 25 / 100) v 2002 r 2010)"
    by (rule loop_value) simp_all
  have bounds: "(1::rat) \<le> 265 / 10 \<and> (285 / 10 :: rat) \<le> 35" by simp
  show ?thesis
    using bounds by (simp only: l2 l3 l10 v2 v3 v10 limits_2850 limits_2825 limits_2650 simp_thms)
qed

theorem noiseless_scenario_witness:
  "(\<forall>k. gauss zero_rng k = 0)
   \<and> map_of (fst (years_loop (285 / 10) (- 25 / 100) (8 / 10) 2002 zero_rng)) (str 2002) = Some (285 / 10)
   \<and> map_of (fst (years_loop (285 / 10) (- 25 / 100) (8 / 10) 2002 zero_rng)) (str 2003) = Some (282 / 10)
   \<and> map_of (fst (years_loop (285 / 10) (- 25 / 100) (8 / 10) 2002 zero_rng)) (str 2010) = Some (265 / 10)"
proof -
  have z: "\<forall>k. gauss zero_rng k = 0" by (simp add: zero_rng_def)
  from noiseless_scenario [OF z, of "8 / 10"] z show ?thesis by blast
qed




section \<open>The table of flat records\<close>

lemma append_row_ok:
  "map_of reg radio = Some st \<Longrightarrow> int_of_str k = Some y \<Longrightarrow>
   append_row reg radio (k, a) acc = Some (acc @ [mk_row st radio y a])"
  by (simp add: append_row_def mk_row_def)

lemma rows_loop:
  assumes "map_of reg radio = Some st"
  shows "\<forall>(k, a) \<in> set data. int_of_str k \<noteq> None \<Longrightarrow>
     for_each (append_row reg radio) data acc =
       Some (acc @ map (\<lambda>(k, a). mk_row st radio (the (int_of_str k)) a) data)"
proof (induction data arbitrary: acc)
  case Nil
  then show ?case by simp
next
  case (Cons item data)
  obtain k a where item: "item = (k, a)" by (cases item)
  from Cons.prems obtain y where y: "int_of_str k = Some y" by (auto simp add: item)
  from Cons.prems have rest: "\<forall>(k, a) \<in> set data. int_of_str k \<noteq> None" by simp
  show ?case
    by (simp add: item append_row_ok [OF assms y] Cons.IH [OF rest] y)
qed

lemma stations_loop:
  "\<forall>(radio, data) \<in> set ad. map_of reg radio \<noteq> None
      \<and> (\<forall>(k, a) \<in> set data. int_of_str k \<noteq> None) \<Longrightarrow>
   for_each (\<lambda>(radio, data). for_each (append_row reg radio) data) ad acc =
     Some (acc @ table_of reg ad)"
proof (induction ad arbitrary: acc)
  case Nil
  then show ?case by (simp add: table_of_def)
next
  case (Cons item ad)
  obtain radio data where item: "item = (radio, data)" by (cases item)
  from Cons.prems obtain st where st: "map_of reg radio = Some st" by (auto simp add: item)
  from Cons.prems have keys: "\<forall>(k, a) \<in> set data. int_of_str k \<noteq> None"
    by (simp add: item)
  from Cons.prems have rest: "\<forall>(radio, data) \<in> set ad. map_of reg radio \<noteq> None
      \<and> (\<forall>(k, a) \<in> set data. int_of_str k \<noteq> None)" by simp
  have "table_of reg (item # ad) =
      map (\<lambda>(k, a). mk_row st radio (the (int_of_str k)) a) data @ table_of reg ad"
    by (simp add: table_of_def item st)
  then show ?case
    by (simp add: item rows_loop [OF st keys] Cons.IH [OF rest])
qed

lemma get_all_data_table:
  assumes "\<forall>(radio, data) \<in> set (audience_data self). map_of (radios_of self) radio \<noteq> None
      \<and> (\<forall>(k, a) \<in> set data. int_of_str k \<noteq> None)"
  shows "get_all_data self = Some (table_of (radios_of self) (audience_data self))"
  using stations_loop [OF assms, of "[]"] by (simp add: get_all_data_def)

lemma append_row_matches:
  assumes "append_row reg radio item acc = Some acc'" and "\<forall>row \<in> set acc. matches_registry reg row"
  shows "\<forall>row \<in> set acc'. matches_registry reg row"
  using assms
  by (cases item) (auto simp add: append_row_def matches_registry_def split: option.splits)

lemma rows_loop_matches:
  "for_each (append_row reg radio) data acc = Some acc' \<Longrightarrow>
   \<forall>row \<in> set acc. matches_registry reg row \<Longrightarrow>
   \<forall>row \<in> set acc'. matches_registry reg row"
proof (induction data arbitrary: acc)
  case Nil
  then show ?case by simp
next
  case (Cons item data)
  from Cons.prems(1) obtain mid where
    mid: "append_row reg radio item acc = Some mid" "for_each (append_row reg radio) data mid = Some acc'"
    by (auto split: option.splits)
  from Cons.IH [OF mid(2) append_row_matches [OF mid(1) Cons.prems(2)]] show ?case .
qed

lemma stations_loop_matches:
  "for_each (\<lambda>(radio, data). for_each (append_row reg radio) data) ad acc = Some acc' \<Longrightarrow>
   \<forall>row \<in> set acc. matches_registry reg row \<Longrightarrow>
   \<forall>row \<in> set acc'. matches_registry reg row"
proof (induction ad arbitrary: acc)
  case Nil
  then show ?case by simp
next
  case (Cons item ad)
  obtain radio data where item: "item = (radio, data)" by (cases item)
  from Cons.prems(1) obtain mid where
    mid: "for_each (append_row reg radio) data acc = Some mid"
      "for_each (\<lambda>(radio, data). for_each (append_row reg radio) data) ad mid = Some acc'"
    by (auto simp add: item split: option.splits)
  from Cons.IH [OF mid(2) rows_loop_matches [OF mid(1) Cons.prems(2)]] show ?case .
qed

lemma get_all_data_matches:
  "get_all_data self = Some df \<Longrightarrow> \<forall>row \<in> set df. matches_registry (radios_of self) row"
  unfolding get_all_data_def by (erule stations_loop_matches) simp

lemma generated_ok:
  "\<forall>(radio, data) \<in> set (generated r). map_of radios radio \<noteq> None
      \<and> (\<forall>(k, a) \<in> set data. int_of_str k \<noteq> None)"
proof -
  define ok where "ok = (\<lambda>data :: year_map. \<forall>(k, a) \<in> set data. int_of_str k \<noteq> None)"
  have keys: "ok (station_rows b t v s r')" if "2002 \<le> s" for b t v s r'
    using that by (auto simp add: ok_def station_rows_def int_of_str_year)
  have k2: "ok (station_rows b t v 2002 r')" for b t v r'
    by (rule keys) simp
  have k5: "ok (station_rows b t v 2005 r')" for b t v r'
    by (rule keys) simp
  have reg: "map_of radios radio \<noteq> None" if "radio \<in> fst ` set (generated r)" for radio
    using that by (auto simp add: generated_def radios_def reunion_1ere_def nrj_reunion_def)
  have "\<forall>(radio, data) \<in> set (generated r). ok data"
    by (simp add: generated_def k2 k5)
  with reg show ?thesis unfolding ok_def by force
qed

lemma main_table_explicit: "main_table r = Some (table_of radios (generated r))"
  using get_all_data_table [of "\<lparr>radios_of = radios, audience_data = generated r\<rparr>"] generated_ok [of r]
  by (simp add: main_table_def init_def create_explicit)

lemma station_rows_length: "length (station_rows b t v s r) = nat (2025 - s + 1)"
  by (simp add: station_rows_def)

lemma table_of_length: "length (table_of reg ad) = sum_list (map (\<lambda>(radio, data). length data) ad)"
  by (induction ad) (auto simp add: table_of_def)

lemma generated_lengths:
  "map (\<lambda>(radio, data). length data) (generated r) =
   map (\<lambda>(radio, params). nat (2025 - start_year_of radio + 1)) trends"
  by (simp add: generated_def trends_def station_rows_length start_year_of_def
    reunion_1ere_def nrj_reunion_def)

lemma trends_total: "sum_list (map (\<lambda>(radio, params). nat (2025 - start_year_of radio + 1)) trends) = 189"
  by (simp add: trends_def start_year_of_def reunion_1ere_def nrj_reunion_def)

text \<open>
  C5. For any random source the table is built without error, and its number of rows is
  the sum over the stations of \<open>2025 - start_year + 1\<close>, which is 189 for the registry
  of the source (seven stations from 2002, one from 2005).
\<close>

theorem flat_record_count:
  "\<exists>df. main_table r = Some df
     \<and> length df = sum_list (map (\<lambda>(radio, params). nat (2025 - start_year_of radio + 1)) trends)
     \<and> length df = 189
     \<and> length (filter (\<lambda>(radio, params). start_year_of radio = 2002) trends) = 7
     \<and> length (filter (\<lambda>(radio, params). start_year_of radio = 2005) trends) = 1"
proof -
  have "length (table_of radios (generated r)) =
      sum_list (map (\<lambda>(radio, params). nat (2025 - start_year_of radio + 1)) trends)"
    by (simp only: table_of_length generated_lengths)
  moreover have "length (filter (\<lambda>(radio, params). start_year_of radio = 2002) trends) = 7"
    by (simp add: trends_def start_year_of_def reunion_1ere_def nrj_reunion_def)
  moreover have "length (filter (\<lambda>(radio, params). start_year_of radio = 2005) trends) = 1"
    by (simp add: trends_def start_year_of_def reunion_1ere_def nrj_reunion_def)
  ultimately show ?thesis
    using main_table_explicit [of r] trends_total by simp
qed

lemma table_of_Nil: "table_of reg [] = []"
  by (simp add: table_of_def)

lemma table_of_Cons:
  "table_of reg ((radio, data) # ad) =
     map (\<lambda>(k, a). mk_row (the (map_of reg radio)) radio (the (int_of_str k)) a) data
     @ table_of reg ad"
  by (simp add: table_of_def)

lemma block_order:
  assumes "2002 \<le> s"
  shows "map (\<lambda>row. (Radio row, Annee row))
       (map (\<lambda>(k, a). mk_row st radio (the (int_of_str k)) a) (station_rows b t v s r))
     = map (Pair radio) [s..2025]"
proof -
  have "the (int_of_str (str y)) = y" if "y \<in> set [s..2025]" for y
    using that assms by (simp add: int_of_str_year)
  then show ?thesis
    by (simp add: station_rows_def comp_def mk_row_def cong: map_cong)
qed

lemma starts:
  "start_year_of reunion_1ere = 2002" "start_year_of nrj_reunion = 2002"
  "start_year_of ''Freedom'' = 2002" "start_year_of ''RCI'' = 2002"
  "start_year_of ''Radio Est'' = 2002" "start_year_of ''Radio Kreol'' = 2002"
  "start_year_of ''Hit West'' = 2005" "start_year_of ''Radio Sun'' = 2002"
  by (simp_all add: start_year_of_def reunion_1ere_def nrj_reunion_def)

lemma table_order:
  "map (\<lambda>row. (Radio row, Annee row)) (table_of radios (generated r)) =
   concat (map (\<lambda>(radio, st). map (Pair radio) [start_year_of radio..2025]) radios)"
proof -
  have b2: "map (\<lambda>row. (Radio row, Annee row))
       (map (\<lambda>(k, a). mk_row st radio (the (int_of_str k)) a) (station_rows b t v 2002 r'))
     = map (Pair radio) [2002..2025]" for st radio b t v r'
    by (rule block_order) simp
  have b5: "map (\<lambda>row. (Radio row, Annee row))
       (map (\<lambda>(k, a). mk_row st radio (the (int_of_str k)) a) (station_rows b t v 2005 r'))
     = map (Pair radio) [2005..2025]" for st radio b t v r'
    by (rule block_order) simp
  show ?thesis
    by (simp only: generated_def radios_def table_of_Cons table_of_Nil map_append b2 b5
      list.map prod.case concat.simps starts)
qed

lemma radios_names: "map fst radios = map fst trends \<and> distinct (map fst radios)"
  by (simp add: radios_def trends_def reunion_1ere_def nrj_reunion_def)

text \<open>
  C10. The rows of the table are grouped by station in the order of the registry (the
  station registry and the trend registry list the same names in the same order, each
  once), and within a station the years run from its start year to 2025 in strictly
  increasing order.
\<close>

theorem flat_records_order:
  "\<exists>df. main_table r = Some df
     \<and> map (\<lambda>row. (Radio row, Annee row)) df =
         concat (map (\<lambda>(radio, st). map (Pair radio) [start_year_of radio..2025]) radios)
     \<and> map fst radios = map fst trends \<and> distinct (map fst radios)
     \<and> sorted_wrt (<) [start_year_of radio..2025]"
proof -
  from radios_names have n1: "map fst radios = map fst trends" by (rule conjunct1)
  from radios_names have n2: "distinct (map fst radios)" by (rule conjunct2)
  show ?thesis
    by (intro exI [of _ "table_of radios (generated r)"] conjI
      main_table_explicit table_order n1 n2 sorted_wrt_upto)
qed

text \<open>
  C6. In every row of the table built from an initialised analyzer, the fields
  \<open>Type\<close>, \<open>Couleur\<close> and \<open>Lancement\<close> are the attributes that the station
  registry stores for the row's station.
\<close>

theorem flat_records_match_registry:
  assumes "init r = Some (self, r')" and "get_all_data self = Some df" and "row \<in> set df"
  shows "\<exists>st. map_of radios (Radio row) = Some st
     \<and> Type row = stype st \<and> Couleur row = couleur st \<and> Lancement row = lancement st"
proof -
  from assms(1) have "radios_of self = radios"
    by (auto simp add: init_def split: option.splits)
  with get_all_data_matches [OF assms(2)] assms(3) show ?thesis
    by (simp add: matches_registry_def)
qed

theorem flat_records_match_registry_witness:
  "init zero_rng = Some (\<lparr>radios_of = radios, audience_data = generated zero_rng\<rparr>, advance 189 24 zero_rng)
   \<and> get_all_data \<lparr>radios_of = radios, audience_data = generated zero_rng\<rparr>
       = Some (table_of radios (generated zero_rng))
   \<and> hd (table_of radios (generated zero_rng)) \<in> set (table_of radios (generated zero_rng))
   \<and> (\<exists>st. map_of radios (Radio (hd (table_of radios (generated zero_rng)))) = Some st
     \<and> Type (hd (table_of radios (generated zero_rng))) = stype st
     \<and> Couleur (hd (table_of radios (generated zero_rng))) = couleur st
     \<and> Lancement (hd (table_of radios (generated zero_rng))) = lancement st)"
proof -
  have i: "init zero_rng = Some (\<lparr>radios_of = radios, audience_data = generated zero_rng\<rparr>, advance 189 24 zero_rng)"
    by (simp add: init_def create_explicit)
  have g: "get_all_data \<lparr>radios_of = radios, audience_data = generated zero_rng\<rparr>
       = Some (table_of radios (generated zero_rng))"
    using main_table_explicit [of zero_rng] by (simp add: main_table_def i)
  have "length (table_of radios (generated zero_rng)) = 189"
    by (simp only: table_of_length generated_lengths trends_total)
  then have "table_of radios (generated zero_rng) \<noteq> []" by auto
  then have h: "hd (table_of radios (generated zero_rng)) \<in> set (table_of radios (generated zero_rng))"
    by (rule hd_in_set)
  note m = flat_records_match_registry [OF i g h]
  show ?thesis by (rule conjI [OF i conjI [OF g conjI [OF h m]]])
qed

end
